theory Spec2Isabelle
  imports Complex_Main "HOL-Library.Word" "HOL-Library.AList"
begin

section \<open>The websocket server of mapadroid (websocket/WebsocketServer.py)\<close>

text \<open>
  The server keeps a dictionary \<open>__current_users\<close> from origins to connected-client
  entries, a set \<open>__users_connecting\<close> of origins inside the admission section, a
  stop event and a queue of worker threads that wait to be joined. The embedding follows
  the methods of the class one by one. Objects the class only holds a reference to
  (connections, threads, workers) are natural numbers naming the object; what the code
  reads from them (\<open>connection.open\<close>, \<open>thread.is_alive()\<close>, \<open>worker.is_stopping()\<close>)
  is a field of the state. Python exceptions are values of \<open>py_error\<close>.
\<close>

subsection \<open>Exceptions\<close>

datatype py_error =
  ValueError | IndexError | AttributeError | KeyError | RuntimeError | OSError | LookupFailure

subsection \<open>Frames: \<open>str.split(";", 1)\<close>, \<open>int(...)\<close>, \<open>int.from_bytes\<close>\<close>

text \<open>
  A text frame is a Python \<open>str\<close>: a list of Unicode code points. \<open>str\<close> writes a
  literal. A binary frame is \<open>bytes\<close>. \<open>MessageTyping\<close> is the union of the two.
\<close>

type_synonym py_str = "nat list"

definition str :: "string \<Rightarrow> py_str" where
  "str s = map of_char s"

datatype message = Text py_str | Binary "8 word list"

text \<open>\<open>s.split(";", 1)\<close>: one piece when there is no separator (code point 59), otherwise
  the part before the first separator and everything after it.\<close>

definition py_split1 :: "py_str \<Rightarrow> py_str list" where
  "py_split1 s =
     (case dropWhile (\<lambda>c. c \<noteq> 59) s of
        [] \<Rightarrow> [s]
      | _ # rest \<Rightarrow> [takeWhile (\<lambda>c. c \<noteq> 59) s, rest])"

text \<open>
  What \<open>int\<close> takes from the interpreter it runs on: the largest number of digits it
  converts (\<open>sys.get_int_max_str_digits()\<close>, 4300 unless it is set; 0 for no bound),
  and, for the code points from 127 on, which of them are whitespace and which are
  decimal digits of which value.
\<close>

record interpreter =
  int_max_str_digits :: nat
  unicode_isspace :: "nat \<Rightarrow> bool"
  unicode_todecimal :: "nat \<Rightarrow> nat option"

text \<open>
  \<open>int\<close> of a \<open>str\<close> first rewrites a string that is not pure ASCII: a code point below
  127 stays, whitespace becomes a blank (32), a decimal digit becomes its ASCII digit,
  anything else becomes \<open>?\<close> (63), which no integer contains. A pure ASCII string is
  taken as it is.
\<close>

definition to_ascii :: "interpreter \<Rightarrow> py_str \<Rightarrow> py_str" where
  "to_ascii ip s =
     (if list_all (\<lambda>c. c < 128) s then s
      else map (\<lambda>c. if c < 127 then c
                     else if unicode_isspace ip c then 32
                     else (case unicode_todecimal ip c of Some d \<Rightarrow> 48 + d | None \<Rightarrow> 63)) s)"

text \<open>The ASCII whitespace that is skipped at both ends: tab, line feed, vertical tab,
  form feed, carriage return and blank. The separators 28 to 31 are not skipped.\<close>

definition is_c_space :: "nat \<Rightarrow> bool" where
  "is_c_space c = (c \<in> {9, 10, 11, 12, 13, 32})"

definition py_strip :: "py_str \<Rightarrow> py_str" where
  "py_strip s = rev (dropWhile is_c_space (rev (dropWhile is_c_space s)))"

definition digit_val :: "nat \<Rightarrow> nat option" where
  "digit_val c = (if 48 \<le> c \<and> c \<le> 57 then Some (c - 48) else None)"

text \<open>The digits after the first one: a single underscore (95) may stand between two
  digits.\<close>

fun py_digits :: "nat \<Rightarrow> py_str \<Rightarrow> nat option" where
  "py_digits acc [] = Some acc"
| "py_digits acc [c] =
     (case digit_val c of None \<Rightarrow> None | Some v \<Rightarrow> Some (10 * acc + v))"
| "py_digits acc (c # d # ds) =
     (if c = 95
      then (case digit_val d of None \<Rightarrow> None | Some v \<Rightarrow> py_digits (10 * acc + v) ds)
      else (case digit_val c of None \<Rightarrow> None | Some v \<Rightarrow> py_digits (10 * acc + v) (d # ds)))"

text \<open>A literal with more than 640 digits is refused when the bound is set and the
  digits (underscores apart) are more than the bound.\<close>

definition over_limit :: "interpreter \<Rightarrow> nat \<Rightarrow> bool" where
  "over_limit ip digits =
     (640 < digits \<and> 0 < int_max_str_digits ip \<and> int_max_str_digits ip < digits)"

definition py_unsigned :: "interpreter \<Rightarrow> py_str \<Rightarrow> nat option" where
  "py_unsigned ip body =
     (case body of
        [] \<Rightarrow> None
      | d # ds \<Rightarrow>
          (case digit_val d of
             None \<Rightarrow> None
           | Some v \<Rightarrow>
               (case py_digits v ds of
                  None \<Rightarrow> None
                | Some n \<Rightarrow>
                    if over_limit ip (length (filter (\<lambda>c. c \<noteq> 95) body)) then None
                    else Some n)))"

text \<open>\<open>int(s)\<close> in base 10: surrounding whitespace, an optional sign (45 or 43), digits.
  \<open>None\<close> is the \<open>ValueError\<close>.\<close>

definition py_int :: "interpreter \<Rightarrow> py_str \<Rightarrow> int option" where
  "py_int ip s =
     (case py_strip (to_ascii ip s) of
        [] \<Rightarrow> None
      | c # cs \<Rightarrow>
          if c = 45 then map_option (\<lambda>n. - int n) (py_unsigned ip cs)
          else if c = 43 then map_option int (py_unsigned ip cs)
          else map_option int (py_unsigned ip (c # cs)))"

text \<open>\<open>int.from_bytes(bs, byteorder='big', signed=False)\<close>.\<close>

definition int_from_bytes_big :: "8 word list \<Rightarrow> int" where
  "int_from_bytes_big bs = foldl (\<lambda>acc b. acc * 256 + uint b) 0 bs"

text \<open>
  \<open>__on_message\<close> up to its last line: the pair \<open>(message_id, response)\<close> that is handed
  to \<open>client_entry.set_message_response\<close>, or the exception raised on the way.
  \<open>splitup[0]\<close> is converted first, \<open>splitup[1]\<close> is read second.
\<close>

definition on_message :: "interpreter \<Rightarrow> message \<Rightarrow> py_error + (int \<times> message)" where
  "on_message ip m =
     (case m of
        Text s \<Rightarrow>
          (case py_split1 s of
             [] \<Rightarrow> Inl IndexError
           | left # pieces \<Rightarrow>
               (case py_int ip left of
                  None \<Rightarrow> Inl ValueError
                | Some message_id \<Rightarrow>
                    (case pieces of
                       [] \<Rightarrow> Inl IndexError
                     | response # _ \<Rightarrow> Inr (message_id, Text response))))
      | Binary bs \<Rightarrow> Inr (int_from_bytes_big (take 4 bs), Binary (drop 4 bs)))"

text \<open>The words of the specification, to compare with: the value of a string of ASCII
  digits, and the big-endian value of four bytes.\<close>

definition spec_unsigned_of_digits :: "py_str \<Rightarrow> nat" where
  "spec_unsigned_of_digits ds = foldl (\<lambda>acc c. 10 * acc + (c - 48)) 0 ds"

definition is_ascii_digit :: "nat \<Rightarrow> bool" where
  "is_ascii_digit c = (48 \<le> c \<and> c \<le> 57)"

definition spec_be32 :: "8 word \<Rightarrow> 8 word \<Rightarrow> 8 word \<Rightarrow> 8 word \<Rightarrow> int" where
  "spec_be32 b0 b1 b2 b3 = uint b0 * 2 ^ 24 + uint b1 * 2 ^ 16 + uint b2 * 2 ^ 8 + uint b3"

subsection \<open>The state of the server and of the objects it refers to\<close>

text \<open>
  \<open>WebsocketConnectedClientEntry\<close>, as the handler builds it and reads it. A connection,
  a worker and a thread are each named by a number.
\<close>

record entry =
  origin :: string
  websocket_client_connection :: nat
  worker_instance :: "nat option"
  worker_thread :: "nat option"

text \<open>What the server reads of its mapping manager: the keys of
  \<open>get_all_devicemappings()\<close> and the dictionary \<open>get_auths()\<close>.\<close>

record mappings =
  devicemappings :: "string list"
  auths :: "(string \<times> string) list"

text \<open>A device of the data manager: \<open>dev['origin']\<close> and \<open>device.identifier\<close> (\<open>dev_identifier\<close>).\<close>

record device =
  dev_origin :: string
  dev_identifier :: nat

text \<open>The calls the server makes on objects outside it, in the order it makes them.\<close>

datatype effect =
  Close nat | Stop_worker nat | Start_thread nat | Join nat nat | Sleep real

datatype thread_state = Unstarted | Alive | Finished

record server =
  enable_configmode :: bool
  mapping_manager :: "mappings option"
  stop_server_event :: bool
  current_users :: "(string \<times> entry) list"
  users_connecting :: "string set"
  worker_shutdown_queue :: "nat option list"
  internal_worker_join_thread :: thread_state
  loop_running :: bool
  conn_open :: "nat \<Rightarrow> bool"
  thread_alive :: "nat \<Rightarrow> bool"
  worker_stopping :: "nat \<Rightarrow> bool"
  next_thread :: nat
  calls :: "effect list"

text \<open>
  The collaborators that are not part of this class, as parameters: \<open>check_auth\<close> of
  \<open>authHelper\<close>, \<open>search('device', params={'origin': origin})\<close> and \<open>is_device_active\<close>
  of the data manager (a search may raise), and the worker factory's
  \<open>get_worker_using_settings(origin, use_configmode, ...)\<close>, which returns a worker or
  \<open>None\<close>. \<open>interp\<close> is the interpreter the server runs on.
\<close>

record env =
  interp :: interpreter
  check_auth :: "string \<Rightarrow> (string \<times> string) list \<Rightarrow> bool"
  dm_search :: "string \<Rightarrow> py_error + device list"
  is_device_active :: "nat \<Rightarrow> bool"
  get_worker_using_settings :: "string \<Rightarrow> bool \<Rightarrow> nat option"

text \<open>A handshake: the connection object, and what \<open>request_headers.get_all\<close> returns
  for \<open>"Origin"\<close> and for \<open>"Authorization"\<close>.\<close>

record handshake =
  connection :: nat
  origin_headers :: "string list"
  authorization_headers :: "string list"

subsection \<open>\<open>__authenticate_connection\<close>\<close>

text \<open>
  The method returns \<open>(None, False)\<close>, written \<open>No_origin\<close>, or \<open>(origin, success)\<close>,
  written \<open>Auth origin success\<close>. With no mapping manager the tuple \<open>(origin, False)\<close> is
  evaluated and dropped (there is no \<open>return\<close> in that branch), the \<open>elif\<close> is skipped and
  \<open>self.__mapping_manager.get_auths()\<close> is called on \<open>None\<close>.
\<close>

datatype auth = No_origin | Auth string bool

definition authenticate_connection :: "env \<Rightarrow> server \<Rightarrow> handshake \<Rightarrow> py_error + auth" where
  "authenticate_connection ev s h =
     (case origin_headers h of
        [] \<Rightarrow> Inr No_origin
      | org # _ \<Rightarrow>
          (case mapping_manager s of
             None \<Rightarrow> Inl AttributeError
           | Some mm \<Rightarrow>
               if org \<notin> set (devicemappings mm)
               then (case dm_search ev org of
                       Inl e \<Rightarrow> Inl e
                     | Inr _ \<Rightarrow> Inr (Auth org False))
               else
                 (let valid_auths = auths mm in
                  if valid_auths \<noteq> []
                  then (case authorization_headers h of
                          [] \<Rightarrow> Inr (Auth org False)
                        | auth_base64 # _ \<Rightarrow>
                            if auth_base64 \<noteq> [] \<and> \<not> check_auth ev auth_base64 valid_auths
                            then Inr (Auth org False)
                            else Inr (Auth org True))
                  else Inr (Auth org True))))"

subsection \<open>\<open>__add_worker_and_thread_to_entry\<close> and the admission section\<close>

text \<open>\<open>None\<close> is the result \<open>False\<close>, with the entry untouched; otherwise the entry with its
  new worker and a new thread, which has not been started.\<close>

definition add_worker_and_thread_to_entry ::
  "env \<Rightarrow> entry \<Rightarrow> string \<Rightarrow> bool \<Rightarrow> server \<Rightarrow> entry option \<times> server" where
  "add_worker_and_thread_to_entry ev e org use_configmode s =
     (case get_worker_using_settings ev org use_configmode of
        None \<Rightarrow> (None, s)
      | Some worker \<Rightarrow>
          (Some (e\<lparr>worker_thread := Some (next_thread s), worker_instance := Some worker\<rparr>),
           s\<lparr>thread_alive := (thread_alive s)(next_thread s := False),
             next_thread := Suc (next_thread s)\<rparr>))"

text \<open>Lines 187 to 196: \<open>use_configmode\<close>. Outside config mode the device is looked up;
  \<open>device\<close> stays \<open>None\<close> when no record matches, and \<open>device.identifier\<close> then raises.\<close>

definition lookup_use_configmode :: "env \<Rightarrow> server \<Rightarrow> string \<Rightarrow> py_error + bool" where
  "lookup_use_configmode ev s org =
     (if enable_configmode s then Inr True
      else (case dm_search ev org of
              Inl e \<Rightarrow> Inl e
            | Inr devs \<Rightarrow>
                (case find (\<lambda>dev. dev_origin dev = org) devs of
                   None \<Rightarrow> Inl AttributeError
                 | Some dev \<Rightarrow> Inr (\<not> is_device_active ev (dev_identifier dev)))))"

text \<open>Lines 197 to 230: the entry to register, or \<open>None\<close> for \<open>continue_register = False\<close>.\<close>

definition register_entry ::
  "env \<Rightarrow> nat \<Rightarrow> string \<Rightarrow> bool \<Rightarrow> server \<Rightarrow> py_error + (entry option \<times> server)" where
  "register_entry ev conn org use_configmode s =
     (let fresh = \<lparr>origin = org, websocket_client_connection = conn,
                   worker_instance = None, worker_thread = None\<rparr> in
      case map_of (current_users s) org of
        None \<Rightarrow> Inr (add_worker_and_thread_to_entry ev fresh org use_configmode s)
      | Some e \<Rightarrow>
          if use_configmode
          then Inr (add_worker_and_thread_to_entry ev fresh org use_configmode s)
          else if conn_open s (websocket_client_connection e) then Inr (None, s)
          else (case worker_thread e of
                  None \<Rightarrow> Inl AttributeError
                | Some t \<Rightarrow>
                    if thread_alive s t
                    then (case worker_instance e of
                            None \<Rightarrow> Inl AttributeError
                          | Some w \<Rightarrow>
                              if \<not> worker_stopping s w then Inr (None, s) else Inr (None, s))
                    else (case add_worker_and_thread_to_entry ev e org use_configmode s of
                            (None, s') \<Rightarrow> Inr (None, s')
                          | (Some e', s') \<Rightarrow>
                              Inr (Some (e'\<lparr>websocket_client_connection := conn\<rparr>), s'))))"

text \<open>\<open>random.uniform(a, b)\<close> is \<open>a + (b - a) * random()\<close>; \<open>u\<close> is the sample of
  \<open>random()\<close>.\<close>

definition py_uniform :: "real \<Rightarrow> real \<Rightarrow> real \<Rightarrow> real" where
  "py_uniform a b u = a + (b - a) * u"

text \<open>\<open>set.remove\<close> raises \<open>KeyError\<close> on a missing element.\<close>

definition connecting_remove :: "string \<Rightarrow> server \<Rightarrow> py_error + server" where
  "connecting_remove org s =
     (if org \<in> users_connecting s
      then Inr (s\<lparr>users_connecting := users_connecting s - {org}\<rparr>)
      else Inl KeyError)"

definition close_websocket_client_connection :: "nat \<Rightarrow> server \<Rightarrow> server" where
  "close_websocket_client_connection conn s =
     s\<lparr>conn_open := (conn_open s)(conn := False), calls := calls s @ [Close conn]\<rparr>"

subsection \<open>\<open>__client_message_receiver\<close>\<close>

text \<open>
  What one turn of the loop meets: the connection is no longer open, \<open>recv\<close> times out,
  \<open>recv\<close> raises \<open>ConnectionClosed\<close>, or a message arrives. The receiver returns the
  pairs it handed to \<open>set_message_response\<close>, in order, and how it ended; when the list
  of turns runs out it is still in its loop.
\<close>

datatype recv_event = Not_open | Timeout | Connection_closed | Received message

datatype receiver_end = Returned | Still_receiving

fun client_message_receiver ::
  "interpreter \<Rightarrow> recv_event list \<Rightarrow> (int \<times> message) list
     \<Rightarrow> (int \<times> message) list \<times> (py_error + receiver_end)" where
  "client_message_receiver ip [] delivered = (delivered, Inr Still_receiving)"
| "client_message_receiver ip (Not_open # evs) delivered = (delivered, Inr Returned)"
| "client_message_receiver ip (Timeout # evs) delivered = client_message_receiver ip evs delivered"
| "client_message_receiver ip (Connection_closed # evs) delivered = (delivered, Inr Returned)"
| "client_message_receiver ip (Received m # evs) delivered =
     (case on_message ip m of
        Inl e \<Rightarrow> (delivered, Inl e)
      | Inr p \<Rightarrow> client_message_receiver ip evs (delivered @ [p]))"

subsection \<open>\<open>__connection_handler\<close>\<close>

text \<open>
  How a run of the handler ends. \<open>Served delivered caught\<close>: the receiver was awaited,
  \<open>caught\<close> is the exception the \<open>except Exception\<close> clause logged, if any, and the
  \<open>finally\<close> block has run. A handler that raises ends in \<open>Inl\<close>; the \<open>logger.catch\<close>
  decorator logs that exception.
\<close>

datatype outcome =
  Dropped_stopping | Auth_failed | Already_connecting | Not_registered
  | Served "(int \<times> message) list" "py_error option"
  | Still_serving "(int \<times> message) list"

text \<open>Lines 242 to 256, the \<open>try\<close> block: the result of the receiver, or the exception
  that the \<open>except\<close> clause catches.\<close>

definition serve_try ::
  "interpreter \<Rightarrow> recv_event list \<Rightarrow> string \<Rightarrow> entry \<Rightarrow> server
     \<Rightarrow> ((int \<times> message) list \<times> (py_error + receiver_end)) \<times> server" where
  "serve_try ip evs org e s =
     (case worker_thread e of
        None \<Rightarrow> (([], Inl AttributeError), s)
      | Some t \<Rightarrow>
          (let s1 = (if \<not> thread_alive s t
                     then s\<lparr>thread_alive := (thread_alive s)(t := True),
                            calls := calls s @ [Start_thread t]\<rparr>
                     else s) in
           case connecting_remove org s1 of
             Inl err \<Rightarrow> (([], Inl err), s1)
           | Inr s2 \<Rightarrow> (client_message_receiver ip evs [], s2)))"

text \<open>Lines 258 to 267, the \<open>finally\<close> block.\<close>

definition serve_finally :: "nat \<Rightarrow> entry \<Rightarrow> server \<Rightarrow> py_error + server" where
  "serve_finally conn e s =
     (if websocket_client_connection e = conn
      then (case worker_instance e of
              None \<Rightarrow> Inl AttributeError
            | Some w \<Rightarrow>
                Inr (s\<lparr>calls := calls s @ [Stop_worker w],
                       worker_shutdown_queue := worker_shutdown_queue s @ [worker_thread e]\<rparr>))
      else Inr s)"

definition serve_connection ::
  "interpreter \<Rightarrow> recv_event list \<Rightarrow> nat \<Rightarrow> string \<Rightarrow> entry \<Rightarrow> server
     \<Rightarrow> (py_error + outcome) \<times> server" where
  "serve_connection ip evs conn org e s =
     (case serve_try ip evs org e s of
        ((delivered, Inr Still_receiving), s1) \<Rightarrow> (Inr (Still_serving delivered), s1)
      | ((delivered, r), s1) \<Rightarrow>
          (case serve_finally conn e s1 of
             Inl err \<Rightarrow> (Inl err, s1)
           | Inr s2 \<Rightarrow>
               (Inr (Served delivered (case r of Inl err \<Rightarrow> Some err | Inr _ \<Rightarrow> None)), s2)))"

text \<open>
  The handler, run from its first line to its last without another handler in between:
  \<open>u\<close> is the sample of \<open>random()\<close> and \<open>evs\<close> what the receive loop meets. The entry
  is the handler's local variable and is passed by value.
\<close>

definition connection_handler ::
  "env \<Rightarrow> real \<Rightarrow> handshake \<Rightarrow> recv_event list \<Rightarrow> server \<Rightarrow> (py_error + outcome) \<times> server" where
  "connection_handler ev u h evs s =
     (if stop_server_event s then (Inr Dropped_stopping, s)
      else
        (case authenticate_connection ev s h of
           Inl err \<Rightarrow> (Inl err, s)
         | Inr No_origin \<Rightarrow> (Inr Auth_failed, close_websocket_client_connection (connection h) s)
         | Inr (Auth org False) \<Rightarrow>
             (Inr Auth_failed, close_websocket_client_connection (connection h) s)
         | Inr (Auth org True) \<Rightarrow>
             if org \<in> users_connecting s then (Inr Already_connecting, s)
             else
               (let s1 = s\<lparr>users_connecting := insert org (users_connecting s)\<rparr> in
                case lookup_use_configmode ev s1 org of
                  Inl err \<Rightarrow> (Inl err, s1)
                | Inr use_configmode \<Rightarrow>
                    (case register_entry ev (connection h) org use_configmode s1 of
                       Inl err \<Rightarrow> (Inl err, s1)
                     | Inr (None, s2) \<Rightarrow>
                         (let s3 = s2\<lparr>calls := calls s2 @ [Sleep (py_uniform 3 15 u)]\<rparr> in
                          case connecting_remove org s3 of
                            Inl err \<Rightarrow> (Inl err, s3)
                          | Inr s4 \<Rightarrow> (Inr Not_registered, s4))
                     | Inr (Some e, s2) \<Rightarrow>
                         serve_connection (interp ev) evs (connection h) org e
                           (s2\<lparr>current_users := AList.update org e (current_users s2)\<rparr>)))))"

text \<open>
  The same handler in two parts, for a handler that is suspended while others run. The
  first part is lines 159 to 181: it ends the handler, or it leaves the origin in the
  connecting set and the handler in flight. The second part is the rest, from line 183
  on; it does not look at the stop event again.
\<close>

definition handler_begin ::
  "env \<Rightarrow> handshake \<Rightarrow> server \<Rightarrow> ((py_error + outcome) + string) \<times> server" where
  "handler_begin ev h s =
     (if stop_server_event s then (Inl (Inr Dropped_stopping), s)
      else
        (case authenticate_connection ev s h of
           Inl err \<Rightarrow> (Inl (Inl err), s)
         | Inr No_origin \<Rightarrow>
             (Inl (Inr Auth_failed), close_websocket_client_connection (connection h) s)
         | Inr (Auth org False) \<Rightarrow>
             (Inl (Inr Auth_failed), close_websocket_client_connection (connection h) s)
         | Inr (Auth org True) \<Rightarrow>
             if org \<in> users_connecting s then (Inl (Inr Already_connecting), s)
             else (Inr org, s\<lparr>users_connecting := insert org (users_connecting s)\<rparr>)))"

definition handler_resume ::
  "env \<Rightarrow> real \<Rightarrow> handshake \<Rightarrow> recv_event list \<Rightarrow> string \<Rightarrow> server
     \<Rightarrow> (py_error + outcome) \<times> server" where
  "handler_resume ev u h evs org s1 =
     (case lookup_use_configmode ev s1 org of
        Inl err \<Rightarrow> (Inl err, s1)
      | Inr use_configmode \<Rightarrow>
          (case register_entry ev (connection h) org use_configmode s1 of
             Inl err \<Rightarrow> (Inl err, s1)
           | Inr (None, s2) \<Rightarrow>
               (let s3 = s2\<lparr>calls := calls s2 @ [Sleep (py_uniform 3 15 u)]\<rparr> in
                case connecting_remove org s3 of
                  Inl err \<Rightarrow> (Inl err, s3)
                | Inr s4 \<Rightarrow> (Inr Not_registered, s4))
           | Inr (Some e, s2) \<Rightarrow>
               serve_connection (interp ev) evs (connection h) org e
                 (s2\<lparr>current_users := AList.update org e (current_users s2)\<rparr>)))"

text \<open>What a handler is called with, and a handler in flight: what it was called
  with and the origin it has put into the connecting set.\<close>

datatype flight = Flight env real handshake "recv_event list"

type_synonym task = "flight \<times> string"

subsection \<open>\<open>__internal_worker_join\<close>: the thread that joins stopped workers\<close>

text \<open>The condition of the \<open>while\<close> loop, as it is written.\<close>

definition reaper_continues :: "server \<Rightarrow> bool" where
  "reaper_continues s =
     (\<not> stop_server_event s \<or> (stop_server_event s \<and> worker_shutdown_queue s \<noteq> []))"

text \<open>
  One turn of the loop. \<open>get_nowait\<close> on an empty queue raises \<open>queue.Empty\<close>: the thread
  sleeps a second and goes on. Otherwise the item is joined with a timeout of 10 seconds
  (a \<open>RuntimeError\<close> of \<open>join\<close> is caught and logged); \<open>alive\<close> is what \<open>is_alive()\<close>
  answers after the join; a thread that is still alive is put at the back of the queue.
\<close>

definition reaper_body :: "bool \<Rightarrow> server \<Rightarrow> server" where
  "reaper_body alive s =
     (case worker_shutdown_queue s of
        [] \<Rightarrow> s\<lparr>calls := calls s @ [Sleep 1]\<rparr>
      | next_item # rest \<Rightarrow>
          (case next_item of
             None \<Rightarrow> s\<lparr>worker_shutdown_queue := rest\<rparr>
           | Some t \<Rightarrow>
               s\<lparr>calls := calls s @ [Join t 10],
                 thread_alive := (thread_alive s)(t := alive),
                 worker_shutdown_queue := (if alive then rest @ [Some t] else rest)\<rparr>))"

text \<open>What the other threads do to the flag and the queue during one turn.\<close>

record reaper_turn =
  alive_after_join :: bool
  others_put :: "nat option list"
  others_set_stop :: bool

definition others_act :: "reaper_turn \<Rightarrow> server \<Rightarrow> server" where
  "others_act tn s =
     s\<lparr>worker_shutdown_queue := worker_shutdown_queue s @ others_put tn,
       stop_server_event := (stop_server_event s \<or> others_set_stop tn)\<rparr>"

text \<open>The loop over a list of turns: \<open>True\<close> with the state in which the loop was left
  (the thread is finished), \<open>False\<close> when the turns run out with the loop still going.\<close>

fun internal_worker_join :: "reaper_turn list \<Rightarrow> server \<Rightarrow> bool \<times> server" where
  "internal_worker_join [] s =
     (if reaper_continues s then (False, s)
      else (True, s\<lparr>internal_worker_join_thread := Finished\<rparr>))"
| "internal_worker_join (tn # tns) s =
     (if reaper_continues s
      then internal_worker_join tns (others_act tn (reaper_body (alive_after_join tn) s))
      else (True, s\<lparr>internal_worker_join_thread := Finished\<rparr>))"

subsection \<open>Events on a running server\<close>

text \<open>
  A connection that is handled, a change of what the outside objects answer
  (\<open>connection.open\<close>, \<open>is_alive()\<close>, \<open>is_stopping()\<close>), or some turns of the join thread.
\<close>

datatype event =
  Connect env real handshake "recv_event list"
  | World "nat \<Rightarrow> bool" "nat \<Rightarrow> bool" "nat \<Rightarrow> bool"
  | Reaper "reaper_turn list"

fun run_event :: "event \<Rightarrow> server \<Rightarrow> server" where
  "run_event (Connect ev u h evs) s = snd (connection_handler ev u h evs s)"
| "run_event (World c t w) s = s\<lparr>conn_open := c, thread_alive := t, worker_stopping := w\<rparr>"
| "run_event (Reaper tns) s =
     (if internal_worker_join_thread s = Alive then snd (internal_worker_join tns s) else s)"

fun run_events :: "event list \<Rightarrow> server \<Rightarrow> server" where
  "run_events [] s = s"
| "run_events (e # es) s = run_events es (run_event e s)"

subsection \<open>\<open>start_server\<close> and \<open>stop_server\<close>\<close>

text \<open>
  \<open>start_server\<close> up to \<open>run_forever\<close>, with the exception it raises, if any, and the
  state it leaves. Line 87 reads the device mappings of the mapping manager, which
  raises on \<open>None\<close>. The join thread is started unless it is alive (\<open>Thread.start\<close> on a
  thread that has run raises \<open>RuntimeError\<close>). \<open>bind_ok\<close> says whether
  \<open>websockets.serve\<close> can bind the port, which is up to the operating system; only then
  does the loop serve.
\<close>

definition start_server :: "bool \<Rightarrow> server \<Rightarrow> py_error option \<times> server" where
  "start_server bind_ok s =
     (case mapping_manager s of
        None \<Rightarrow> (Some AttributeError, s)
      | Some mm \<Rightarrow>
          (case internal_worker_join_thread s of
             Finished \<Rightarrow> (Some RuntimeError, s)
           | _ \<Rightarrow>
               if bind_ok
               then (None, s\<lparr>internal_worker_join_thread := Alive, loop_running := True\<rparr>)
               else (Some OSError, s\<lparr>internal_worker_join_thread := Alive\<rparr>)))"

text \<open>
  The handlers that are in flight when \<open>stop_server\<close> is called: each has run its first
  part. The list keeps a place for every handler, \<open>None\<close> for one that has ended.
\<close>

fun begin_flights :: "flight list \<Rightarrow> server \<Rightarrow> task option list \<times> server" where
  "begin_flights [] s = ([], s)"
| "begin_flights (Flight ev u h evs # fs) s =
     (case handler_begin ev h s of
        (Inl ended, s') \<Rightarrow>
          (case begin_flights fs s' of (tasks, s'') \<Rightarrow> (None # tasks, s''))
      | (Inr org, s') \<Rightarrow>
          (case begin_flights fs s' of
             (tasks, s'') \<Rightarrow> (Some (Flight ev u h evs, org) # tasks, s'')))"

text \<open>
  What happens on the event loop while \<open>stop_server\<close> sleeps: an event of the running
  server, or the handler at place \<open>i\<close>, if it is still in flight, goes on from line 183
  to its end.
\<close>

datatype poll_event = Happens event | Resumes nat

fun run_poll :: "poll_event list \<Rightarrow> task option list \<Rightarrow> server \<Rightarrow> task option list \<times> server" where
  "run_poll [] tasks s = (tasks, s)"
| "run_poll (Happens e # es) tasks s = run_poll es tasks (run_event e s)"
| "run_poll (Resumes i # es) tasks s =
     (if i < length tasks
      then (case tasks ! i of
              None \<Rightarrow> run_poll es tasks s
            | Some (Flight ev u h evs, org) \<Rightarrow>
                run_poll es (tasks[i := None]) (snd (handler_resume ev u h evs org s)))
      else run_poll es tasks s)"

text \<open>The busy wait of \<open>stop_server\<close>: between two looks at \<open>__users_connecting\<close> the
  thread sleeps a second, while the events of \<open>poll\<close> happen. \<open>None\<close>: the polls ran out
  and the set was never seen empty.\<close>

fun wait_for_connecting ::
  "poll_event list list \<Rightarrow> task option list \<Rightarrow> server \<Rightarrow> server option" where
  "wait_for_connecting [] tasks s = (if users_connecting s \<noteq> {} then None else Some s)"
| "wait_for_connecting (poll # polls) tasks s =
     (if users_connecting s \<noteq> {}
      then (case run_poll poll tasks (s\<lparr>calls := calls s @ [Sleep 1]\<rparr>) of
              (tasks', s') \<Rightarrow> wait_for_connecting polls tasks' s')
      else Some s)"

text \<open>\<open>__close_all_connections_and_signal_stop\<close>: the loop over
  \<open>self.__current_users.values()\<close>.\<close>

fun close_all :: "entry list \<Rightarrow> server \<Rightarrow> py_error + server" where
  "close_all [] s = Inr s"
| "close_all (e # es) s =
     (case worker_instance e of
        None \<Rightarrow> Inl AttributeError
      | Some w \<Rightarrow>
          close_all es
            (close_websocket_client_connection (websocket_client_connection e)
               (s\<lparr>calls := calls s @ [Stop_worker w]\<rparr>)))"

definition close_all_connections_and_signal_stop :: "server \<Rightarrow> py_error + server" where
  "close_all_connections_and_signal_stop s = close_all (map snd (current_users s)) s"

text \<open>\<open>self.__worker_shutdown_queue.join()\<close>: returns once every item has been taken and
  marked done, which only the join thread does.\<close>

fun queue_join :: "bool list \<Rightarrow> server \<Rightarrow> server option" where
  "queue_join [] s = (if worker_shutdown_queue s = [] then Some s else None)"
| "queue_join (alive # turns) s =
     (if worker_shutdown_queue s = [] then Some s
      else if internal_worker_join_thread s = Alive then queue_join turns (reaper_body alive s)
      else None)"

text \<open>
  \<open>stop_server\<close>, called while the handlers \<open>flights\<close> are in flight. \<open>None\<close>: it does not
  return within the given polls and turns. The coroutine that closes the connections is
  handed to the event loop, and \<open>future.result()\<close> waits for it: for ever when the loop
  does not run. \<open>join()\<close> on a thread that was never started raises \<open>RuntimeError\<close>.
\<close>

definition stop_server ::
  "flight list \<Rightarrow> poll_event list list \<Rightarrow> bool list \<Rightarrow> server \<Rightarrow> (py_error + server) option" where
  "stop_server flights polls turns s =
     (case begin_flights flights s of
        (tasks, s0) \<Rightarrow>
          (case wait_for_connecting polls tasks (s0\<lparr>stop_server_event := True\<rparr>) of
             None \<Rightarrow> None
           | Some s1 \<Rightarrow>
               if \<not> loop_running s1 then None
               else
                 (case close_all_connections_and_signal_stop s1 of
                    Inl err \<Rightarrow> Some (Inl err)
                  | Inr s2 \<Rightarrow>
                      if internal_worker_join_thread s2 = Unstarted then Some (Inl RuntimeError)
                      else (case queue_join turns s2 of
                              None \<Rightarrow> None
                            | Some s3 \<Rightarrow> Some (Inr (s3\<lparr>loop_running := False\<rparr>))))))"

text \<open>\<open>stop_server()\<close> followed by \<open>start_server()\<close>, with the events \<open>between\<close> the two:
  the exception of \<open>start_server\<close>, if any, and the state it leaves. \<open>None\<close>:
  \<open>stop_server\<close> does not return, so \<open>start_server\<close> is not called.\<close>

definition stop_then_start ::
  "flight list \<Rightarrow> poll_event list list \<Rightarrow> bool list \<Rightarrow> event list \<Rightarrow> bool \<Rightarrow> server
     \<Rightarrow> (py_error option \<times> server) option" where
  "stop_then_start flights polls turns between bind_ok s =
     (case stop_server flights polls turns s of
        Some (Inr s1) \<Rightarrow> Some (start_server bind_ok (run_events between s1))
      | _ \<Rightarrow> None)"

text \<open>The origins that have an entry in the registry.\<close>

definition registry_origins :: "server \<Rightarrow> string list" where
  "registry_origins s = map fst (current_users s)"

subsection \<open>\<open>get_origin_communicator\<close>\<close>

text \<open>What the method can return: \<open>entry.worker_instance.communicator\<close> (named by the
  worker), \<open>False\<close>, or \<open>None\<close>.\<close>

datatype communicator_result = Communicator_of nat | Py_False | Py_None

definition get_origin_communicator :: "server \<Rightarrow> string \<Rightarrow> communicator_result" where
  "get_origin_communicator s org =
     (case map_of (current_users s) org of
        None \<Rightarrow> Py_False
      | Some e \<Rightarrow>
          (case worker_instance e of
             None \<Rightarrow> Py_False
           | Some w \<Rightarrow> Communicator_of w))"

subsection \<open>A server to run\<close>

definition ex_mappings :: mappings where
  "ex_mappings = \<lparr>devicemappings = [''dev1'', ''dev2''], auths = [(''user'', ''secret'')]\<rparr>"

definition ex_server :: server where
  "ex_server =
     \<lparr>enable_configmode = False, mapping_manager = Some ex_mappings,
      stop_server_event = False, current_users = [], users_connecting = {},
      worker_shutdown_queue = [], internal_worker_join_thread = Alive, loop_running = True,
      conn_open = (\<lambda>c. False), thread_alive = (\<lambda>t. False), worker_stopping = (\<lambda>w. False),
      next_thread = 0, calls = []\<rparr>"

definition ex_entry :: entry where
  "ex_entry = \<lparr>origin = ''dev1'', websocket_client_connection = 1,
               worker_instance = Some 1, worker_thread = Some 0\<rparr>"

text \<open>An interpreter with the default bound of 4300 digits; of the code points from
  127 on it knows the whitespace 133 and 160 and the Arabic-Indic digits.\<close>

definition ex_interp :: interpreter where
  "ex_interp =
     \<lparr>int_max_str_digits = 4300,
      unicode_isspace = (\<lambda>c. c = 133 \<or> c = 160),
      unicode_todecimal = (\<lambda>c. if 1632 \<le> c \<and> c \<le> 1641 then Some (c - 1632) else None)\<rparr>"

text \<open>A data manager that knows \<open>dev1\<close> only, an auth check that accepts one header, a
  factory that always builds worker 1.\<close>

definition ex_env :: env where
  "ex_env =
     \<lparr>interp = ex_interp,
      check_auth = (\<lambda>a valid. a = ''Basic dXNlcjpzZWNyZXQ=''),
      dm_search = (\<lambda>org. Inr (if org = ''dev1''
                               then [\<lparr>dev_origin = ''dev1'', dev_identifier = 7\<rparr>] else [])),
      is_device_active = (\<lambda>i. True),
      get_worker_using_settings = (\<lambda>org cfg. Some 1)\<rparr>"

definition ex_handshake :: "string \<Rightarrow> nat \<Rightarrow> handshake" where
  "ex_handshake org conn =
     \<lparr>connection = conn, origin_headers = [org],
      authorization_headers = [''Basic dXNlcjpzZWNyZXQ='']\<rparr>"

text \<open>States and inputs for the runs below: an entry for \<open>dev1\<close> whose connection is
  still open; a factory that builds no worker; a registry with one entry; a handshake of
  \<open>dev2\<close>, which the mapping manager knows and the data manager does not, and the state
  its handler leaves behind; a join queue with one thread and two turns of the join
  thread; a state in which \<open>dev1\<close> is in the admission section.\<close>

definition s_open :: server where
  "s_open = ex_server\<lparr>current_users := [(''dev1'', ex_entry)], conn_open := (\<lambda>c. c = 1)\<rparr>"

definition ev_nofactory :: env where
  "ev_nofactory = ex_env\<lparr>get_worker_using_settings := (\<lambda>org cfg. None)\<rparr>"

definition s_one :: server where
  "s_one = ex_server\<lparr>current_users := [(''dev1'', ex_entry)]\<rparr>"

definition hs_dev2 :: handshake where
  "hs_dev2 = \<lparr>connection = 3, origin_headers = [''dev2''],
              authorization_headers = [''Basic dXNlcjpzZWNyZXQ='']\<rparr>"

definition s_leaked :: server where
  "s_leaked = ex_server\<lparr>users_connecting := {''dev2''}\<rparr>"

definition s_queue :: server where
  "s_queue = ex_server\<lparr>worker_shutdown_queue := [Some 5]\<rparr>"

definition turns2 :: "reaper_turn list" where
  "turns2 = [\<lparr>alive_after_join = True, others_put = [], others_set_stop = True\<rparr>,
             \<lparr>alive_after_join = False, others_put = [], others_set_stop = False\<rparr>]"


text \<open>A data manager that knows every origin, and a handler for \<open>dev2\<close> that is
  admitted under it and finds its connection closed at once.\<close>

definition ev_all :: env where
  "ev_all = ex_env\<lparr>dm_search := (\<lambda>org. Inr [\<lparr>dev_origin = org, dev_identifier = 7\<rparr>])\<rparr>"

definition flight_dev2 :: flight where
  "flight_dev2 = Flight ev_all (1/2) hs_dev2 [Not_open]"




definition frame_long :: message where
  "frame_long = Text (replicate 4301 57 @ str '';x'')"

section \<open>Properties\<close>

subsection \<open>The frame codec\<close>

lemma digit_val_digit: "is_ascii_digit c \<Longrightarrow> digit_val c = Some (c - 48)"
  by (simp add: is_ascii_digit_def digit_val_def)

lemma digit_not_underscore: "is_ascii_digit c \<Longrightarrow> c \<noteq> 95"
  by (auto simp: is_ascii_digit_def)

lemma digit_not_space: "is_ascii_digit c \<Longrightarrow> \<not> is_c_space c"
  by (auto simp: is_ascii_digit_def is_c_space_def)

lemma digit_not_sign: "is_ascii_digit c \<Longrightarrow> c \<noteq> 45 \<and> c \<noteq> 43 \<and> c \<noteq> 59"
  by (auto simp: is_ascii_digit_def)

lemma to_ascii_digits: "list_all is_ascii_digit ds \<Longrightarrow> to_ascii ip ds = ds"
proof -
  assume "list_all is_ascii_digit ds"
  then have "list_all (\<lambda>c. c < 128) ds"
    by (auto simp: list_all_iff is_ascii_digit_def)
  then show ?thesis by (simp add: to_ascii_def)
qed

lemma filter_digits: "list_all is_ascii_digit ds \<Longrightarrow> filter (\<lambda>c. c \<noteq> 95) ds = ds"
  by (induction ds) (auto dest: digit_not_underscore)

lemma py_digits_all_digits:
  "list_all is_ascii_digit ds \<Longrightarrow>
   py_digits acc ds = Some (foldl (\<lambda>a c. 10 * a + (c - 48)) acc ds)"
proof (induction acc ds rule: py_digits.induct)
  case (1 acc)
  show ?case by simp
next
  case (2 acc c)
  then show ?case by (simp add: digit_val_digit)
next
  case (3 acc c d ds)
  then show ?case by (simp add: digit_val_digit digit_not_underscore)
qed

lemma py_strip_digits:
  assumes "list_all is_ascii_digit ds"
  shows "py_strip ds = ds"
proof (cases ds rule: rev_cases)
  case Nil
  then show ?thesis by (simp add: py_strip_def)
next
  case (snoc ys y)
  with assms have y: "\<not> is_c_space y" by (simp add: digit_not_space)
  show ?thesis
  proof (cases ds)
    case Nil
    then show ?thesis by (simp add: py_strip_def)
  next
    case (Cons x xs)
    with assms have "\<not> is_c_space x" by (simp add: digit_not_space)
    with Cons have "dropWhile is_c_space ds = ds" by simp
    with snoc y show ?thesis by (simp add: py_strip_def)
  qed
qed

lemma py_unsigned_digits:
  assumes "ds \<noteq> []" "list_all is_ascii_digit ds"
  shows "py_unsigned ip ds
           = (if over_limit ip (length ds) then None else Some (spec_unsigned_of_digits ds))"
proof -
  from assms obtain d rest where ds: "ds = d # rest" by (cases ds) auto
  with assms have d: "is_ascii_digit d" and rest: "list_all is_ascii_digit rest" by simp_all
  have f: "filter (\<lambda>c. c \<noteq> 95) (d # rest) = d # rest"
    using filter_digits [OF assms(2)] by (simp add: ds)
  have "py_digits (d - 48) rest = Some (spec_unsigned_of_digits ds)"
    using rest by (simp add: ds py_digits_all_digits spec_unsigned_of_digits_def)
  then show ?thesis
    using d unfolding ds py_unsigned_def f by (simp add: digit_val_digit)
qed

lemma py_int_digits:
  assumes "ds \<noteq> []" "list_all is_ascii_digit ds"
  shows "py_int ip ds
           = (if over_limit ip (length ds) then None
              else Some (int (spec_unsigned_of_digits ds)))"
proof -
  from assms obtain d rest where ds: "ds = d # rest" by (cases ds) auto
  with assms have d: "is_ascii_digit d" by simp
  have "py_strip (to_ascii ip ds) = d # rest"
    using py_strip_digits [OF assms(2)] to_ascii_digits [OF assms(2)] by (simp add: ds)
  moreover note py_unsigned_digits [OF assms, of ip, unfolded ds]
  ultimately show ?thesis
    using d by (simp add: py_int_def digit_not_sign ds)
qed

lemma py_split1_first:
  assumes "59 \<notin> set l"
  shows "py_split1 (l @ 59 # r) = [l, r]"
proof -
  have "dropWhile (\<lambda>c. c \<noteq> 59) (l @ 59 # r) = 59 # r"
    using assms by (induction l) auto
  moreover have "takeWhile (\<lambda>c. c \<noteq> 59) (l @ 59 # r) = l"
    using assms by (induction l) auto
  ultimately show ?thesis by (simp add: py_split1_def)
qed

lemma int_from_bytes_big_4:
  "int_from_bytes_big [b0, b1, b2, b3] = spec_be32 b0 b1 b2 b3"
  by (simp add: int_from_bytes_big_def spec_be32_def)

lemma on_message_digits:
  assumes "ds \<noteq> []" "list_all is_ascii_digit ds"
  shows "on_message ip (Text (ds @ 59 # payload))
           = (if over_limit ip (length ds) then Inl ValueError
              else Inr (int (spec_unsigned_of_digits ds), Text payload))"
proof -
  from assms(2) have "59 \<notin> set ds"
    by (auto simp: list_all_iff dest: digit_not_sign)
  then have "py_split1 (ds @ 59 # payload) = [ds, payload]" by (rule py_split1_first)
  then show ?thesis
    by (simp add: on_message_def py_int_digits [OF assms])
qed

text \<open>
  C6, as the code has it. A text frame made of one or more ASCII digits, a semicolon and
  any payload (any code points, further semicolons included) is decoded to the value of
  the digits and the payload, provided the digits are not more than \<open>int\<close> converts on
  the interpreter at hand (more than 640 digits and more than its bound, when it has
  one). A binary frame is decoded to the big-endian value of its first four bytes and
  the bytes after them.
\<close>

theorem on_message_decodes:
  "(ds \<noteq> [] \<and> list_all is_ascii_digit ds \<and> \<not> over_limit ip (length ds) \<longrightarrow>
      on_message ip (Text (ds @ 59 # payload))
        = Inr (int (spec_unsigned_of_digits ds), Text payload))
   \<and> on_message ip (Binary (b0 # b1 # b2 # b3 # rest)) = Inr (spec_be32 b0 b1 b2 b3, Binary rest)
   \<and> on_message ip (Binary bs) = Inr (int_from_bytes_big (take 4 bs), Binary (drop 4 bs))"
  by (simp add: on_message_digits) (simp add: on_message_def int_from_bytes_big_4)

theorem on_message_decodes_witness:
  "\<not> over_limit ex_interp (length (str ''42''))
   \<and> on_message ex_interp (Text (str ''42;pong;'' @ [960])) = Inr (42, Text (str ''pong;'' @ [960]))
   \<and> on_message ex_interp (Binary [0, 0, 1, 2, 9]) = Inr (258, Binary [9])"
  using on_message_decodes [of "str ''42''" ex_interp "str ''pong;'' @ [960]" 0 0 1 2 "[9]" "[]"]
  by (simp add: spec_unsigned_of_digits_def is_ascii_digit_def spec_be32_def str_def
      over_limit_def)

text \<open>Under the default bound of 4300 digits the frame of 4301 digits, a semicolon and
  \<open>x\<close> is not decoded: \<open>int\<close> raises \<open>ValueError\<close>.\<close>

theorem long_digit_string_raises:
  "on_message ex_interp frame_long = Inl ValueError"
proof -
  have a: "replicate 4301 (57::nat) \<noteq> []" by simp
  have b: "list_all is_ascii_digit (replicate 4301 57)"
    by (simp add: list_all_iff is_ascii_digit_def)
  have c: "over_limit ex_interp (length (replicate 4301 (57::nat)))"
    by (simp add: over_limit_def ex_interp_def)
  have "frame_long = Text (replicate 4301 57 @ 59 # str ''x'')"
    by (simp add: frame_long_def str_def)
  with on_message_digits [OF a b, of ex_interp "str ''x''"] c show ?thesis by simp
qed

lemma py_split1_cases:
  "py_split1 s = (if 59 \<in> set s
                  then [takeWhile (\<lambda>c. c \<noteq> 59) s, tl (dropWhile (\<lambda>c. c \<noteq> 59) s)]
                  else [s])"
proof (cases "dropWhile (\<lambda>c. c \<noteq> 59) s")
  case Nil
  then have "59 \<notin> set s" by (auto simp: dropWhile_eq_Nil_conv)
  then show ?thesis by (simp add: py_split1_def Nil)
next
  case (Cons a r)
  then have "dropWhile (\<lambda>c. c \<noteq> 59) s \<noteq> []" by simp
  then have "59 \<in> set s" by (auto simp: dropWhile_eq_Nil_conv)
  then show ?thesis by (simp add: py_split1_def Cons)
qed



lemma on_message_wellformed:
  assumes "py_int ip (takeWhile (\<lambda>c. c \<noteq> 59) frame) = Some i" "59 \<in> set frame"
  shows "on_message ip (Text frame) = Inr (i, Text (tl (dropWhile (\<lambda>c. c \<noteq> 59) frame)))"
  using assms by (simp add: on_message_def py_split1_cases)

subsection \<open>The receive loop and malformed frames\<close>






lemma py_int_fs12: "py_int ex_interp (28 # str ''12'') = None"
  by (simp add: py_int_def py_strip_def is_c_space_def py_unsigned_def digit_val_def str_def
      to_ascii_def over_limit_def)

lemma py_int_nbsp12: "py_int ex_interp (160 # str ''12'') = Some 12"
  by (simp add: py_int_def py_strip_def is_c_space_def py_unsigned_def digit_val_def str_def
      to_ascii_def over_limit_def ex_interp_def)

lemma py_int_arabic: "py_int ex_interp [1633, 1634] = Some 12"
  by (simp add: py_int_def py_strip_def is_c_space_def py_unsigned_def digit_val_def str_def
      to_ascii_def over_limit_def ex_interp_def)







subsection \<open>Authentication\<close>

lemma authenticate_no_mapping_manager:
  "mapping_manager s = None \<Longrightarrow> origin_headers h = org # others \<Longrightarrow>
     authenticate_connection ev s h = Inl AttributeError"
  by (simp add: authenticate_connection_def)

text \<open>With auths configured, a known origin is accepted when the first Authorization
  header is empty or passes \<open>check_auth\<close>, and rejected when the header is missing or is
  not empty and fails \<open>check_auth\<close>.\<close>

lemma authenticate_with_auths:
  "mapping_manager s = Some mm \<Longrightarrow> origin_headers h = org # others \<Longrightarrow>
   org \<in> set (devicemappings mm) \<Longrightarrow> auths mm \<noteq> [] \<Longrightarrow>
     authenticate_connection ev s h
       = Inr (Auth org (case authorization_headers h of
                          [] \<Rightarrow> False
                        | a # _ \<Rightarrow> a = [] \<or> check_auth ev a (auths mm)))"
  by (auto simp: authenticate_connection_def Let_def split: list.splits)




text \<open>
  C7. Auths are configured, the origin \<open>dev1\<close> is known, the Authorization header is
  present and empty, and \<open>check_auth\<close> accepts nothing: the connection is accepted.
\<close>

theorem empty_authorization_header_accepted:
  "authenticate_connection (ex_env\<lparr>check_auth := (\<lambda>a valid. False)\<rparr>) ex_server
     \<lparr>connection = 1, origin_headers = [''dev1''], authorization_headers = [[]]\<rparr>
     = Inr (Auth ''dev1'' True)"
  by (simp add: authenticate_connection_def ex_server_def ex_mappings_def)

subsection \<open>\<open>get_origin_communicator\<close> on a miss\<close>

lemma get_origin_communicator_miss:
  "map_of (current_users s) org = None
     \<or> (map_of (current_users s) org = Some e \<and> worker_instance e = None) \<Longrightarrow>
   get_origin_communicator s org = Py_False"
  by (auto simp: get_origin_communicator_def)

text \<open>
  C9. For an origin without an entry, and for an origin whose entry has no worker, the
  method returns \<open>False\<close>, not \<open>None\<close>.
\<close>

theorem get_origin_communicator_miss_is_False:
  "get_origin_communicator ex_server ''dev1'' = Py_False
   \<and> get_origin_communicator
        (ex_server\<lparr>current_users := [(''dev1'', ex_entry\<lparr>worker_instance := None\<rparr>)]\<rparr>) ''dev1''
      = Py_False"
  by (simp add: get_origin_communicator_def ex_server_def ex_entry_def)

subsection \<open>The admission section\<close>

lemma add_worker_None_state:
  "add_worker_and_thread_to_entry ev e org cfg s = (None, s') \<Longrightarrow> s' = s"
  by (auto simp: add_worker_and_thread_to_entry_def split: option.splits)

lemma add_worker_fields:
  "add_worker_and_thread_to_entry ev e org cfg s = (r, s') \<Longrightarrow>
     users_connecting s' = users_connecting s \<and> current_users s' = current_users s
     \<and> calls s' = calls s \<and> stop_server_event s' = stop_server_event s
     \<and> worker_shutdown_queue s' = worker_shutdown_queue s"
  by (auto simp: add_worker_and_thread_to_entry_def split: option.splits)

text \<open>A decision not to register changes nothing.\<close>

lemma register_entry_None_state:
  assumes "register_entry ev conn org cfg s = Inr (None, s')"
  shows "s' = s"
  using assms
  by (auto simp: register_entry_def Let_def split: option.splits if_splits prod.splits
      dest: add_worker_None_state)

lemma register_entry_fields:
  assumes "register_entry ev conn org cfg s = Inr (r, s')"
  shows "users_connecting s' = users_connecting s \<and> current_users s' = current_users s
     \<and> calls s' = calls s \<and> stop_server_event s' = stop_server_event s
     \<and> worker_shutdown_queue s' = worker_shutdown_queue s"
  using assms
  by (auto simp: register_entry_def Let_def split: option.splits if_splits prod.splits
      dest: add_worker_fields)

lemma py_uniform_bounds:
  "0 \<le> u \<Longrightarrow> u \<le> 1 \<Longrightarrow> 3 \<le> py_uniform 3 15 u \<and> py_uniform 3 15 u \<le> 15"
  by (simp add: py_uniform_def)

lemma handler_not_registered:
  assumes "\<not> stop_server_event s"
    and "authenticate_connection ev s h = Inr (Auth org True)"
    and "org \<notin> users_connecting s"
    and "lookup_use_configmode ev (s\<lparr>users_connecting := insert org (users_connecting s)\<rparr>) org
           = Inr cfg"
    and "register_entry ev (connection h) org cfg
           (s\<lparr>users_connecting := insert org (users_connecting s)\<rparr>) = Inr (None, s2)"
  shows "connection_handler ev u h evs s
           = (Inr Not_registered, s\<lparr>calls := calls s @ [Sleep (py_uniform 3 15 u)]\<rparr>)"
proof -
  have s2: "s2 = s\<lparr>users_connecting := insert org (users_connecting s)\<rparr>"
    using assms(5) by (rule register_entry_None_state)
  show ?thesis
    using assms unfolding s2
    by (simp add: connection_handler_def Let_def connecting_remove_def)
qed

lemma handler_already_connecting:
  "\<not> stop_server_event s \<Longrightarrow> authenticate_connection ev s h = Inr (Auth org True) \<Longrightarrow>
   org \<in> users_connecting s \<Longrightarrow> connection_handler ev u h evs s = (Inr Already_connecting, s)"
  by (simp add: connection_handler_def)

lemma handler_lookup_raises:
  assumes "\<not> stop_server_event s"
    and "authenticate_connection ev s h = Inr (Auth org True)"
    and "org \<notin> users_connecting s"
    and "lookup_use_configmode ev (s\<lparr>users_connecting := insert org (users_connecting s)\<rparr>) org
           = Inl err"
  shows "connection_handler ev u h evs s
           = (Inl err, s\<lparr>users_connecting := insert org (users_connecting s)\<rparr>)"
  using assms by (simp add: connection_handler_def Let_def)

lemma handler_stopped:
  "stop_server_event s \<Longrightarrow> connection_handler ev u h evs s = (Inr Dropped_stopping, s)"
  by (simp add: connection_handler_def)

text \<open>
  C3. A connection that authenticates as \<open>org\<close> reaches the admission section; \<open>org\<close>
  has an entry; config mode is off and the device is found and active, so nothing
  overrides; the entry's connection is still open. Then the handler does not register:
  it ends in \<open>Not_registered\<close>, and the registry, with the entry of \<open>org\<close> and its
  connection, is what it was.
\<close>

theorem open_old_connection_rejected:
  assumes "\<not> stop_server_event s"
    and "authenticate_connection ev s h = Inr (Auth org True)"
    and "org \<notin> users_connecting s"
    and "map_of (current_users s) org = Some e"
    and "\<not> enable_configmode s"
    and "dm_search ev org = Inr devs"
    and "find (\<lambda>dev. dev_origin dev = org) devs = Some dev"
    and "is_device_active ev (dev_identifier dev)"
    and "conn_open s (websocket_client_connection e)"
  shows "fst (connection_handler ev u h evs s) = Inr Not_registered
       \<and> current_users (snd (connection_handler ev u h evs s)) = current_users s
       \<and> map_of (current_users (snd (connection_handler ev u h evs s))) org = Some e"
proof -
  let ?s1 = "s\<lparr>users_connecting := insert org (users_connecting s)\<rparr>"
  have cfg: "lookup_use_configmode ev ?s1 org = Inr False"
    using assms(5-8) by (simp add: lookup_use_configmode_def)
  have reg: "register_entry ev (connection h) org False ?s1 = Inr (None, ?s1)"
    using assms(4,9) by (simp add: register_entry_def)
  have "connection_handler ev u h evs s
          = (Inr Not_registered, s\<lparr>calls := calls s @ [Sleep (py_uniform 3 15 u)]\<rparr>)"
    using assms(1-3) cfg reg by (rule handler_not_registered)
  with assms(4) show ?thesis by simp
qed

theorem open_old_connection_rejected_witness:
  "\<not> stop_server_event s_open
   \<and> authenticate_connection ex_env s_open (ex_handshake ''dev1'' 2) = Inr (Auth ''dev1'' True)
   \<and> ''dev1'' \<notin> users_connecting s_open
   \<and> map_of (current_users s_open) ''dev1'' = Some ex_entry
   \<and> \<not> enable_configmode s_open
   \<and> dm_search ex_env ''dev1'' = Inr [\<lparr>dev_origin = ''dev1'', dev_identifier = 7\<rparr>]
   \<and> conn_open s_open (websocket_client_connection ex_entry)
   \<and> fst (connection_handler ex_env (1/2) (ex_handshake ''dev1'' 2) [] s_open) = Inr Not_registered
   \<and> map_of (current_users (snd (connection_handler ex_env (1/2) (ex_handshake ''dev1'' 2) [] s_open)))
        ''dev1'' = Some ex_entry"
proof -
  have a: "\<not> stop_server_event s_open" by (simp add: s_open_def ex_server_def)
  have b: "authenticate_connection ex_env s_open (ex_handshake ''dev1'' 2) = Inr (Auth ''dev1'' True)"
    by (simp add: authenticate_connection_def s_open_def ex_server_def ex_handshake_def
        ex_mappings_def ex_env_def)
  have c: "''dev1'' \<notin> users_connecting s_open" by (simp add: s_open_def ex_server_def)
  have d: "map_of (current_users s_open) ''dev1'' = Some ex_entry" by (simp add: s_open_def)
  have e: "\<not> enable_configmode s_open" by (simp add: s_open_def ex_server_def)
  have f: "dm_search ex_env ''dev1'' = Inr [\<lparr>dev_origin = ''dev1'', dev_identifier = 7\<rparr>]"
    by (simp add: ex_env_def)
  have g: "find (\<lambda>dev. dev_origin dev = ''dev1'') [\<lparr>dev_origin = ''dev1'', dev_identifier = 7\<rparr>]
             = Some \<lparr>dev_origin = ''dev1'', dev_identifier = 7\<rparr>" by simp
  have i: "is_device_active ex_env (dev_identifier \<lparr>dev_origin = ''dev1'', dev_identifier = 7\<rparr>)"
    by (simp add: ex_env_def)
  have j: "conn_open s_open (websocket_client_connection ex_entry)"
    by (simp add: s_open_def ex_entry_def)
  from open_old_connection_rejected [OF a b c d e f g i j, of "1/2" "[]"] a b c d e f j
  show ?thesis by simp
qed

text \<open>
  C5. A connection reaches the admission section and the decision is not to register
  (\<open>register_entry\<close> yields no entry: a row of the table that rejects, or the factory
  built no worker). With \<open>u\<close> in \<open>[0, 1)\<close> the sample of \<open>random()\<close>, the handler sleeps
  \<open>uniform(3, 15)\<close>, which is \<open>3 + 12 * u\<close> seconds, a delay between 3 and 15 seconds
  that is spread as evenly as \<open>u\<close> is; it takes the origin out of the connecting set
  again and returns with the registry as it was.
\<close>

theorem not_registered_backs_off:
  assumes "\<not> stop_server_event s"
    and "authenticate_connection ev s h = Inr (Auth org True)"
    and "org \<notin> users_connecting s"
    and "lookup_use_configmode ev (s\<lparr>users_connecting := insert org (users_connecting s)\<rparr>) org
           = Inr cfg"
    and "register_entry ev (connection h) org cfg
           (s\<lparr>users_connecting := insert org (users_connecting s)\<rparr>) = Inr (None, s2)"
    and "0 \<le> u" and "u < 1"
  shows "fst (connection_handler ev u h evs s) = Inr Not_registered
       \<and> calls (snd (connection_handler ev u h evs s)) = calls s @ [Sleep (3 + 12 * u)]
       \<and> 3 \<le> 3 + 12 * u \<and> 3 + 12 * u \<le> 15
       \<and> org \<notin> users_connecting (snd (connection_handler ev u h evs s))
       \<and> users_connecting (snd (connection_handler ev u h evs s)) = users_connecting s
       \<and> current_users (snd (connection_handler ev u h evs s)) = current_users s"
proof -
  have "connection_handler ev u h evs s
          = (Inr Not_registered, s\<lparr>calls := calls s @ [Sleep (py_uniform 3 15 u)]\<rparr>)"
    using assms(1-5) by (rule handler_not_registered)
  moreover have "py_uniform 3 15 u = 3 + 12 * u" by (simp add: py_uniform_def)
  moreover have "3 \<le> 3 + 12 * u \<and> 3 + 12 * u \<le> 15"
    using assms(6,7) by simp
  ultimately show ?thesis using assms(3) by simp
qed

theorem not_registered_backs_off_witness:
  "\<not> stop_server_event ex_server
   \<and> authenticate_connection ev_nofactory ex_server (ex_handshake ''dev1'' 2) = Inr (Auth ''dev1'' True)
   \<and> ''dev1'' \<notin> users_connecting ex_server
   \<and> register_entry ev_nofactory 2 ''dev1'' False
        (ex_server\<lparr>users_connecting := insert ''dev1'' (users_connecting ex_server)\<rparr>)
       = Inr (None, ex_server\<lparr>users_connecting := insert ''dev1'' (users_connecting ex_server)\<rparr>)
   \<and> fst (connection_handler ev_nofactory (1/4) (ex_handshake ''dev1'' 2) [] ex_server) = Inr Not_registered
   \<and> calls (snd (connection_handler ev_nofactory (1/4) (ex_handshake ''dev1'' 2) [] ex_server)) = [Sleep 6]
   \<and> users_connecting (snd (connection_handler ev_nofactory (1/4) (ex_handshake ''dev1'' 2) [] ex_server)) = {}
   \<and> current_users (snd (connection_handler ev_nofactory (1/4) (ex_handshake ''dev1'' 2) [] ex_server)) = []"
proof -
  let ?s1 = "ex_server\<lparr>users_connecting := insert ''dev1'' (users_connecting ex_server)\<rparr>"
  have a: "\<not> stop_server_event ex_server" by (simp add: ex_server_def)
  have b: "authenticate_connection ev_nofactory ex_server (ex_handshake ''dev1'' 2)
             = Inr (Auth ''dev1'' True)"
    by (simp add: authenticate_connection_def ex_server_def ex_handshake_def
        ex_mappings_def ex_env_def ev_nofactory_def)
  have c: "''dev1'' \<notin> users_connecting ex_server" by (simp add: ex_server_def)
  have d: "lookup_use_configmode ev_nofactory ?s1 ''dev1'' = Inr False"
    by (simp add: lookup_use_configmode_def ex_server_def ex_env_def ev_nofactory_def)
  have e: "register_entry ev_nofactory (connection (ex_handshake ''dev1'' 2)) ''dev1'' False ?s1
             = Inr (None, ?s1)"
    by (simp add: register_entry_def add_worker_and_thread_to_entry_def ex_server_def
        ev_nofactory_def ex_handshake_def)
  have f: "(0::real) \<le> 1/4" and g: "(1/4::real) < 1" by simp_all
  from not_registered_backs_off [OF a b c d e f g, of "[]"] a b c e
  show ?thesis by (simp add: py_uniform_def ex_server_def ex_handshake_def)
qed

subsection \<open>Origins that stay in the connecting set\<close>

lemma close_fields [simp]:
  "users_connecting (close_websocket_client_connection c s) = users_connecting s"
  "current_users (close_websocket_client_connection c s) = current_users s"
  "stop_server_event (close_websocket_client_connection c s) = stop_server_event s"
  "internal_worker_join_thread (close_websocket_client_connection c s) = internal_worker_join_thread s"
  by (simp_all add: close_websocket_client_connection_def)

lemma serve_try_fields:
  assumes "serve_try ip evs org e s = (r, s')"
  shows "users_connecting s - {org} \<subseteq> users_connecting s'
       \<and> current_users s' = current_users s \<and> stop_server_event s' = stop_server_event s"
  using assms
  by (auto simp: serve_try_def connecting_remove_def Let_def split: option.splits if_splits sum.splits)

lemma serve_finally_fields:
  "serve_finally conn e s = Inr s' \<Longrightarrow>
     users_connecting s' = users_connecting s
     \<and> current_users s' = current_users s \<and> stop_server_event s' = stop_server_event s"
  by (auto simp: serve_finally_def split: option.splits if_splits)

lemma serve_connection_fields:
  "users_connecting s - {org} \<subseteq> users_connecting (snd (serve_connection ip evs conn org e s))
   \<and> current_users (snd (serve_connection ip evs conn org e s)) = current_users s
   \<and> stop_server_event (snd (serve_connection ip evs conn org e s)) = stop_server_event s"
proof -
  obtain d r s1 where st: "serve_try ip evs org e s = ((d, r), s1)"
    by (metis surj_pair)
  note a = serve_try_fields [OF st]
  show ?thesis
  proof (cases "serve_finally conn e s1")
    case (Inl err)
    with a st show ?thesis
      by (auto simp: serve_connection_def split: sum.splits receiver_end.splits)
  next
    case (Inr s2)
    note b = serve_finally_fields [OF Inr]
    with a st Inr show ?thesis
      by (auto simp: serve_connection_def split: sum.splits receiver_end.splits)
  qed
qed

text \<open>The handler is its first part followed by its second part.\<close>

lemma connection_handler_phases:
  "connection_handler ev u h evs s
     = (case handler_begin ev h s of
          (Inl ended, s') \<Rightarrow> (ended, s')
        | (Inr org, s1) \<Rightarrow> handler_resume ev u h evs org s1)"
  by (auto simp: connection_handler_def handler_begin_def handler_resume_def Let_def
      split: sum.splits auth.splits bool.splits)

lemma handler_begin_ended:
  "handler_begin ev h s = (Inl ended, s') \<Longrightarrow>
     users_connecting s' = users_connecting s \<and> current_users s' = current_users s
     \<and> stop_server_event s' = stop_server_event s"
  by (auto simp: handler_begin_def split: if_splits sum.splits auth.splits bool.splits)

lemma handler_begin_in_flight:
  "handler_begin ev h s = (Inr org, s') \<Longrightarrow>
     org \<notin> users_connecting s \<and> s' = s\<lparr>users_connecting := insert org (users_connecting s)\<rparr>"
  by (auto simp: handler_begin_def split: if_splits sum.splits auth.splits bool.splits)

lemma handler_resume_fields:
  "users_connecting s - {org} \<subseteq> users_connecting (snd (handler_resume ev u h evs org s))
   \<and> set (registry_origins s) \<subseteq> set (registry_origins (snd (handler_resume ev u h evs org s)))
   \<and> stop_server_event (snd (handler_resume ev u h evs org s)) = stop_server_event s"
proof (cases "lookup_use_configmode ev s org")
  case (Inl err)
  then show ?thesis by (simp add: handler_resume_def)
next
  case cfg: (Inr cfg)
  show ?thesis
  proof (cases "register_entry ev (connection h) org cfg s")
    case (Inl err)
    with cfg show ?thesis by (simp add: handler_resume_def)
  next
    case reg: (Inr p)
    obtain r s2 where p: "p = (r, s2)" by (cases p)
    note f = register_entry_fields [OF reg [unfolded p]]
    show ?thesis
    proof (cases r)
      case None
      with cfg reg p f show ?thesis
        by (auto simp: handler_resume_def Let_def connecting_remove_def registry_origins_def)
    next
      case (Some e)
      let ?s3 = "s2\<lparr>current_users := AList.update org e (current_users s2)\<rparr>"
      have r: "handler_resume ev u h evs org s
                 = serve_connection (interp ev) evs (connection h) org e ?s3"
        using cfg reg p Some by (simp add: handler_resume_def)
      have "set (registry_origins s) \<subseteq> set (registry_origins ?s3)"
        using f by (auto simp: registry_origins_def dom_update)
      with serve_connection_fields [of ?s3 org "interp ev" evs "connection h" e] f
      show ?thesis unfolding r by (auto simp: registry_origins_def)
    qed
  qed
qed

lemma handler_resume_keeps_connecting:
  "x \<in> users_connecting s \<Longrightarrow> x \<noteq> org \<Longrightarrow>
     x \<in> users_connecting (snd (handler_resume ev u h evs org s))"
  using handler_resume_fields [of s org ev u h evs] by auto

lemma handler_keeps_connecting:
  assumes "x \<in> users_connecting s"
  shows "x \<in> users_connecting (snd (connection_handler ev u h evs s))"
proof (cases "handler_begin ev h s")
  case (Pair r s')
  show ?thesis
  proof (cases r)
    case (Inl ended)
    with Pair handler_begin_ended [of ev h s ended s'] assms show ?thesis
      by (simp add: connection_handler_phases)
  next
    case (Inr org)
    with Pair handler_begin_in_flight [of ev h s org s'] assms
    have "x \<noteq> org" and "x \<in> users_connecting s'" by auto
    then have "x \<in> users_connecting (snd (handler_resume ev u h evs org s'))"
      by (simp add: handler_resume_keeps_connecting)
    with Pair Inr show ?thesis by (simp add: connection_handler_phases)
  qed
qed

lemma reaper_body_fields [simp]:
  "users_connecting (reaper_body a s) = users_connecting s"
  "current_users (reaper_body a s) = current_users s"
  "stop_server_event (reaper_body a s) = stop_server_event s"
  "internal_worker_join_thread (reaper_body a s) = internal_worker_join_thread s"
  by (simp_all add: reaper_body_def split: list.splits option.splits)

lemma others_act_fields [simp]:
  "users_connecting (others_act tn s) = users_connecting s"
  "current_users (others_act tn s) = current_users s"
  "stop_server_event s \<Longrightarrow> stop_server_event (others_act tn s)"
  by (simp_all add: others_act_def)

lemma internal_worker_join_fields:
  "users_connecting (snd (internal_worker_join tns s)) = users_connecting s
   \<and> current_users (snd (internal_worker_join tns s)) = current_users s
   \<and> (stop_server_event s \<longrightarrow> stop_server_event (snd (internal_worker_join tns s)))"
  by (induction tns arbitrary: s) simp_all

lemma run_event_connecting:
  "x \<in> users_connecting s \<Longrightarrow> x \<in> users_connecting (run_event e s)"
  by (cases e) (simp_all add: handler_keeps_connecting internal_worker_join_fields)

lemma run_events_connecting:
  "x \<in> users_connecting s \<Longrightarrow> x \<in> users_connecting (run_events es s)"
  by (induction es arbitrary: s) (simp_all add: run_event_connecting)

lemma run_event_stopped:
  "stop_server_event s \<Longrightarrow>
     stop_server_event (run_event e s) \<and> current_users (run_event e s) = current_users s"
  by (cases e) (simp_all add: handler_stopped internal_worker_join_fields)

lemma run_events_stopped:
  "stop_server_event s \<Longrightarrow>
     stop_server_event (run_events es s) \<and> current_users (run_events es s) = current_users s"
proof (induction es arbitrary: s)
  case Nil
  then show ?case by simp
next
  case (Cons e es)
  from run_event_stopped [OF Cons.prems, of e] Cons.IH [of "run_event e s"]
  show ?case by simp
qed

text \<open>The handlers in flight hold origins of their own: none of them holds an origin
  that was in the connecting set before they began.\<close>

lemma begin_flights_connecting:
  "x \<in> users_connecting s \<Longrightarrow> begin_flights fs s = (tasks, s') \<Longrightarrow>
     x \<in> users_connecting s' \<and> (\<forall>f. Some (f, x) \<notin> set tasks)"
proof (induction fs arbitrary: s tasks s')
  case Nil
  then show ?case by simp
next
  case (Cons fl fs)
  obtain ev u h evs where fl: "fl = Flight ev u h evs" by (cases fl)
  obtain r s1 where b: "handler_begin ev h s = (r, s1)" by (cases "handler_begin ev h s")
  obtain ts s2 where rest: "begin_flights fs s1 = (ts, s2)" by (cases "begin_flights fs s1")
  show ?case
  proof (cases r)
    case (Inl ended)
    with b handler_begin_ended [of ev h s ended s1] Cons.prems(1)
    have "x \<in> users_connecting s1" by simp
    from Cons.IH [OF this rest] Cons.prems(2) fl b Inl rest show ?thesis by auto
  next
    case (Inr org)
    with b handler_begin_in_flight [of ev h s org s1] Cons.prems(1)
    have "x \<in> users_connecting s1" and "org \<noteq> x" by auto
    from Cons.IH [OF this(1) rest] this(2) Cons.prems(2) fl b Inr rest show ?thesis by auto
  qed
qed

lemma begin_flights_fields:
  "begin_flights fs s = (tasks, s') \<Longrightarrow>
     current_users s' = current_users s \<and> stop_server_event s' = stop_server_event s"
proof (induction fs arbitrary: s tasks s')
  case Nil
  then show ?case by simp
next
  case (Cons fl fs)
  obtain ev u h evs where fl: "fl = Flight ev u h evs" by (cases fl)
  obtain r s1 where b: "handler_begin ev h s = (r, s1)" by (cases "handler_begin ev h s")
  obtain ts s2 where rest: "begin_flights fs s1 = (ts, s2)" by (cases "begin_flights fs s1")
  have "current_users s1 = current_users s \<and> stop_server_event s1 = stop_server_event s"
    using b handler_begin_ended [of ev h s _ s1] handler_begin_in_flight [of ev h s _ s1]
    by (cases r) auto
  with Cons.IH [OF rest] Cons.prems fl b rest show ?case
    by (cases r) auto
qed

lemma run_poll_connecting:
  "x \<in> users_connecting s \<Longrightarrow> \<forall>f. Some (f, x) \<notin> set tasks \<Longrightarrow>
   run_poll es tasks s = (tasks', s') \<Longrightarrow>
     x \<in> users_connecting s' \<and> (\<forall>f. Some (f, x) \<notin> set tasks')"
proof (induction es tasks s rule: run_poll.induct)
  case (1 tasks s)
  then show ?case by simp
next
  case (2 e es tasks s)
  then show ?case by (simp add: run_event_connecting)
next
  case (3 i es tasks s)
  show ?case
  proof (cases "i < length tasks")
    case False
    with 3 show ?thesis by simp
  next
    case True
    show ?thesis
    proof (cases "tasks ! i")
      case None
      with True 3 show ?thesis by simp
    next
      case (Some tk)
      obtain fl org where tk: "tk = (fl, org)" by (cases tk)
      obtain ev u h evs where fl: "fl = Flight ev u h evs" by (cases fl)
      from True Some tk have "Some (fl, org) \<in> set tasks" by (metis nth_mem)
      with "3.prems"(2) have ne: "x \<noteq> org" by auto
      have a: "x \<in> users_connecting (snd (handler_resume ev u h evs org s))"
        using "3.prems"(1) ne by (rule handler_resume_keeps_connecting)
      have b: "\<forall>f. Some (f, x) \<notin> set (tasks[i := None])"
        using "3.prems"(2) set_update_subset_insert [of tasks i None] by auto
      have run: "run_poll es (tasks[i := None]) (snd (handler_resume ev u h evs org s)) = (tasks', s')"
        using "3.prems"(3) True Some tk fl by simp
      from "3.IH"(2) [OF True Some tk [symmetric] fl a b run] show ?thesis .
    qed
  qed
qed

lemma wait_for_connecting_never:
  "x \<in> users_connecting s \<Longrightarrow> \<forall>f. Some (f, x) \<notin> set tasks \<Longrightarrow>
     wait_for_connecting polls tasks s = None"
proof (induction polls arbitrary: tasks s)
  case Nil
  then show ?case by auto
next
  case (Cons poll polls)
  obtain tasks' s' where r: "run_poll poll tasks (s\<lparr>calls := calls s @ [Sleep 1]\<rparr>) = (tasks', s')"
    by (cases "run_poll poll tasks (s\<lparr>calls := calls s @ [Sleep 1]\<rparr>)")
  have "x \<in> users_connecting (s\<lparr>calls := calls s @ [Sleep 1]\<rparr>)" using Cons.prems(1) by simp
  from run_poll_connecting [OF this Cons.prems(2) r]
  have "wait_for_connecting polls tasks' s' = None" by (intro Cons.IH) simp_all
  with Cons.prems(1) r show ?case by auto
qed

lemma stop_server_never:
  assumes "x \<in> users_connecting s"
  shows "stop_server flights polls turns s = None"
proof -
  obtain tasks s0 where b: "begin_flights flights s = (tasks, s0)"
    by (cases "begin_flights flights s")
  from begin_flights_connecting [OF assms b]
  have "x \<in> users_connecting (s0\<lparr>stop_server_event := True\<rparr>)" and "\<forall>f. Some (f, x) \<notin> set tasks"
    by simp_all
  then have "wait_for_connecting polls tasks (s0\<lparr>stop_server_event := True\<rparr>) = None"
    by (rule wait_for_connecting_never)
  with b show ?thesis by (simp add: stop_server_def)
qed

text \<open>
  C10. Outside config mode a connection authenticates as \<open>org\<close>, which is not yet in
  the connecting set, and the data manager has no device with that origin (or its
  search raises). Then the handler raises after it has put \<open>org\<close> into the connecting
  set, and \<open>org\<close> is still there when it ends. Whatever happens later, \<open>org\<close> stays
  in the set: every later connection that authenticates as \<open>org\<close> ends with
  "already connecting" and changes nothing, and \<open>stop_server\<close> never gets past its
  wait for the connecting set, however often it looks and whichever handlers are in
  flight and go on in the meantime.
\<close>

theorem leaked_connecting_origin:
  assumes "\<not> stop_server_event s"
    and "authenticate_connection ev s h = Inr (Auth org True)"
    and "org \<notin> users_connecting s"
    and "\<not> enable_configmode s"
    and "dm_search ev org = Inl err
         \<or> (dm_search ev org = Inr devs \<and> find (\<lambda>dev. dev_origin dev = org) devs = None)"
  shows "isl (fst (connection_handler ev u h evs s))
       \<and> org \<in> users_connecting (snd (connection_handler ev u h evs s))
       \<and> org \<in> users_connecting (run_events later (snd (connection_handler ev u h evs s)))
       \<and> (\<not> stop_server_event (run_events later (snd (connection_handler ev u h evs s)))
            \<and> authenticate_connection ev' (run_events later (snd (connection_handler ev u h evs s))) h'
                = Inr (Auth org True)
          \<longrightarrow> connection_handler ev' u' h' evs' (run_events later (snd (connection_handler ev u h evs s)))
                = (Inr Already_connecting, run_events later (snd (connection_handler ev u h evs s))))
       \<and> stop_server flights polls turns (run_events later (snd (connection_handler ev u h evs s)))
           = None"
proof -
  let ?s1 = "s\<lparr>users_connecting := insert org (users_connecting s)\<rparr>"
  from assms(4,5) obtain e where "lookup_use_configmode ev ?s1 org = Inl e"
    by (auto simp: lookup_use_configmode_def)
  with assms(1-3) have h: "connection_handler ev u h evs s = (Inl e, ?s1)"
    by (rule handler_lookup_raises)
  have in1: "org \<in> users_connecting ?s1" by simp
  then have in2: "org \<in> users_connecting (run_events later ?s1)"
    by (rule run_events_connecting)
  show ?thesis
    unfolding h using in2
    by (simp add: handler_already_connecting stop_server_never)
qed

theorem leaked_connecting_origin_witness:
  "\<not> stop_server_event ex_server
   \<and> authenticate_connection ex_env ex_server hs_dev2 = Inr (Auth ''dev2'' True)
   \<and> ''dev2'' \<notin> users_connecting ex_server
   \<and> \<not> enable_configmode ex_server
   \<and> dm_search ex_env ''dev2'' = Inr []
   \<and> fst (connection_handler ex_env (1/2) hs_dev2 [] ex_server) = Inl AttributeError
   \<and> users_connecting (snd (connection_handler ex_env (1/2) hs_dev2 [] ex_server)) = {''dev2''}
   \<and> fst (connection_handler ex_env (1/2) hs_dev2 []
             (snd (connection_handler ex_env (1/2) hs_dev2 [] ex_server))) = Inr Already_connecting
   \<and> stop_server [Flight ex_env (1/2) hs_dev2 []] [[Resumes 0], []] []
        (snd (connection_handler ex_env (1/2) hs_dev2 [] ex_server)) = None"
proof -
  have a: "\<not> stop_server_event ex_server" by (simp add: ex_server_def)
  have b: "authenticate_connection ex_env ex_server hs_dev2 = Inr (Auth ''dev2'' True)"
    by (simp add: authenticate_connection_def ex_server_def hs_dev2_def ex_mappings_def ex_env_def)
  have c: "''dev2'' \<notin> users_connecting ex_server" by (simp add: ex_server_def)
  have d: "\<not> enable_configmode ex_server" by (simp add: ex_server_def)
  have e: "dm_search ex_env ''dev2'' = Inr []" by (simp add: ex_env_def)
  have f: "dm_search ex_env ''dev2'' = Inl LookupFailure
         \<or> (dm_search ex_env ''dev2'' = Inr [] \<and> find (\<lambda>dev. dev_origin dev = ''dev2'') [] = None)"
    using e by simp
  have run: "connection_handler ex_env (1/2) hs_dev2 [] ex_server = (Inl AttributeError, s_leaked)"
    using a b c
    by (simp add: connection_handler_def lookup_use_configmode_def ex_env_def ex_server_def
        s_leaked_def Let_def)
  have g: "authenticate_connection ex_env s_leaked hs_dev2 = Inr (Auth ''dev2'' True)"
    by (simp add: authenticate_connection_def ex_server_def hs_dev2_def ex_mappings_def ex_env_def
        s_leaked_def)
  have i: "\<not> stop_server_event s_leaked" by (simp add: ex_server_def s_leaked_def)
  from leaked_connecting_origin
         [OF a b c d f, of "1/2" "[]" "[]" ex_env hs_dev2 "1/2" "[]"
            "[Flight ex_env (1/2) hs_dev2 []]" "[[Resumes 0], []]" "[]"]
  show ?thesis
    using a b c d e g i unfolding run by (simp add: s_leaked_def)
qed

subsection \<open>\<open>stop_server\<close> followed by \<open>start_server\<close>\<close>

lemma run_poll_stopped:
  "stop_server_event s \<Longrightarrow> run_poll es tasks s = (tasks', s') \<Longrightarrow>
     stop_server_event s' \<and> set (registry_origins s) \<subseteq> set (registry_origins s')"
proof (induction es tasks s rule: run_poll.induct)
  case (1 tasks s)
  then show ?case by simp
next
  case (2 e es tasks s)
  from run_event_stopped [OF "2.prems"(1), of e]
  have a: "stop_server_event (run_event e s)"
    and b: "registry_origins (run_event e s) = registry_origins s"
    by (simp_all add: registry_origins_def)
  from "2.prems"(2) have "run_poll es tasks (run_event e s) = (tasks', s')" by simp
  from "2.IH" [OF a this] b show ?case by simp
next
  case (3 i es tasks s)
  show ?case
  proof (cases "i < length tasks")
    case False
    with 3 show ?thesis by simp
  next
    case True
    show ?thesis
    proof (cases "tasks ! i")
      case None
      with True 3 show ?thesis by simp
    next
      case (Some tk)
      obtain fl org where tk: "tk = (fl, org)" by (cases tk)
      obtain ev u h evs where fl: "fl = Flight ev u h evs" by (cases fl)
      note f = handler_resume_fields [of s org ev u h evs]
      have a: "stop_server_event (snd (handler_resume ev u h evs org s))"
        using f "3.prems"(1) by simp
      have run: "run_poll es (tasks[i := None]) (snd (handler_resume ev u h evs org s)) = (tasks', s')"
        using "3.prems"(2) True Some tk fl by simp
      from "3.IH"(2) [OF True Some tk [symmetric] fl a run] f show ?thesis by auto
    qed
  qed
qed

lemma wait_for_connecting_stopped:
  "stop_server_event s \<Longrightarrow> wait_for_connecting polls tasks s = Some s' \<Longrightarrow>
     stop_server_event s' \<and> set (registry_origins s) \<subseteq> set (registry_origins s')"
proof (induction polls arbitrary: tasks s)
  case Nil
  then show ?case by (auto split: if_splits)
next
  case (Cons poll polls)
  show ?case
  proof (cases "users_connecting s \<noteq> {}")
    case False
    with Cons.prems show ?thesis by simp
  next
    case True
    let ?s0 = "s\<lparr>calls := calls s @ [Sleep 1]\<rparr>"
    obtain tasks1 s1 where r: "run_poll poll tasks ?s0 = (tasks1, s1)"
      by (cases "run_poll poll tasks ?s0")
    have "stop_server_event ?s0" using Cons.prems(1) by simp
    from run_poll_stopped [OF this r]
    have a: "stop_server_event s1" and b: "set (registry_origins s) \<subseteq> set (registry_origins s1)"
      by (simp_all add: registry_origins_def)
    from True Cons.prems(2) r have "wait_for_connecting polls tasks1 s1 = Some s'" by simp
    from Cons.IH [OF a this] b show ?thesis by auto
  qed
qed

lemma close_all_fields:
  "close_all es s = Inr s' \<Longrightarrow>
     stop_server_event s' = stop_server_event s \<and> current_users s' = current_users s"
  by (induction es arbitrary: s) (auto split: option.splits)

lemma queue_join_fields:
  "queue_join turns s = Some s' \<Longrightarrow>
     stop_server_event s' = stop_server_event s \<and> current_users s' = current_users s"
proof (induction turns arbitrary: s)
  case Nil
  then show ?case by (auto split: if_splits)
next
  case (Cons a turns)
  show ?case
  proof (cases "worker_shutdown_queue s = []")
    case True
    with Cons.prems show ?thesis by simp
  next
    case False
    with Cons.prems have "queue_join turns (reaper_body a s) = Some s'"
      by (auto split: if_splits)
    from Cons.IH [OF this] show ?thesis by simp
  qed
qed

lemma stop_server_keeps_entries:
  assumes "stop_server flights polls turns s = Some (Inr s')"
  shows "stop_server_event s' \<and> set (registry_origins s) \<subseteq> set (registry_origins s')"
proof -
  obtain tasks s0 where b: "begin_flights flights s = (tasks, s0)"
    by (cases "begin_flights flights s")
  from assms b obtain s1 s2 s3 where
    w: "wait_for_connecting polls tasks (s0\<lparr>stop_server_event := True\<rparr>) = Some s1"
    and c: "close_all (map snd (current_users s1)) s1 = Inr s2"
    and q: "queue_join turns s2 = Some s3"
    and r: "s' = s3\<lparr>loop_running := False\<rparr>"
    by (auto simp: stop_server_def close_all_connections_and_signal_stop_def
        split: option.splits sum.splits if_splits)
  from begin_flights_fields [OF b]
  have 0: "registry_origins (s0\<lparr>stop_server_event := True\<rparr>) = registry_origins s"
    by (simp add: registry_origins_def)
  from wait_for_connecting_stopped [OF _ w] 0
  have 1: "stop_server_event s1 \<and> set (registry_origins s) \<subseteq> set (registry_origins s1)" by simp
  from close_all_fields [OF c] queue_join_fields [OF q] 1 r show ?thesis
    by (simp add: registry_origins_def)
qed

lemma start_server_fields:
  "stop_server_event (snd (start_server bind_ok s)) = stop_server_event s
   \<and> current_users (snd (start_server bind_ok s)) = current_users s"
  by (simp add: start_server_def split: option.splits thread_state.splits)

text \<open>
  C4, as the code has it. When \<open>stop_server()\<close> has returned and \<open>start_server()\<close> is
  called, then, whether it starts the server or raises, every origin that had an entry
  in the registry before still has one: no method removes an entry. The stop event is
  still set.
\<close>

theorem stop_then_start_keeps_entries:
  assumes "stop_then_start flights polls turns between bind_ok s = Some (raised, s')"
  shows "set (registry_origins s) \<subseteq> set (registry_origins s') \<and> stop_server_event s'"
proof -
  from assms obtain s1 where
    st: "stop_server flights polls turns s = Some (Inr s1)"
    and go: "start_server bind_ok (run_events between s1) = (raised, s')"
    by (auto simp: stop_then_start_def split: option.splits sum.splits)
  from stop_server_keeps_entries [OF st]
  have 1: "stop_server_event s1 \<and> set (registry_origins s) \<subseteq> set (registry_origins s1)" .
  with run_events_stopped [of s1 between]
  have 2: "stop_server_event (run_events between s1)
      \<and> set (registry_origins s) \<subseteq> set (registry_origins (run_events between s1))"
    by (simp add: registry_origins_def)
  from start_server_fields [of bind_ok "run_events between s1"] go 2 show ?thesis
    by (simp add: registry_origins_def)
qed

text \<open>A registry with an entry for \<open>dev1\<close> is not empty after \<open>stop_server()\<close> and
  \<open>start_server()\<close>.\<close>

theorem stop_then_start_registry_not_empty:
  "map_option (registry_origins \<circ> snd) (stop_then_start [] [] [] [] True s_one) = Some [''dev1'']"
  by (simp add: stop_then_start_def stop_server_def close_all_connections_and_signal_stop_def
      close_websocket_client_connection_def start_server_def
      s_one_def ex_server_def ex_entry_def registry_origins_def)

text \<open>A run in which the handler of \<open>dev2\<close> is in flight when \<open>stop_server\<close> is
  called and is admitted during the wait: the registry holds \<open>dev1\<close> and \<open>dev2\<close>
  afterwards.\<close>

lemma round_trip_with_flight:
  "map_option (registry_origins \<circ> snd)
      (stop_then_start [flight_dev2] [[Resumes 0]] [False] [] True s_one)
     = Some [''dev1'', ''dev2'']"
  by (simp add: stop_then_start_def stop_server_def close_all_connections_and_signal_stop_def
      close_websocket_client_connection_def start_server_def handler_begin_def handler_resume_def
      authenticate_connection_def lookup_use_configmode_def register_entry_def
      add_worker_and_thread_to_entry_def serve_connection_def serve_try_def serve_finally_def
      connecting_remove_def reaper_body_def flight_dev2_def ev_all_def hs_dev2_def
      s_one_def ex_server_def ex_entry_def ex_env_def ex_mappings_def registry_origins_def Let_def)

theorem stop_then_start_keeps_entries_witness:
  "map_option (registry_origins \<circ> snd)
      (stop_then_start [flight_dev2] [[Resumes 0]] [False] [] True s_one)
     = Some [''dev1'', ''dev2'']
   \<and> registry_origins s_one = [''dev1'']
   \<and> map_option (stop_server_event \<circ> snd)
        (stop_then_start [flight_dev2] [[Resumes 0]] [False] [] True s_one) = Some True"
proof -
  from round_trip_with_flight obtain raised s' where
    r: "stop_then_start [flight_dev2] [[Resumes 0]] [False] [] True s_one = Some (raised, s')"
    by (cases "stop_then_start [flight_dev2] [[Resumes 0]] [False] [] True s_one") auto
  from stop_then_start_keeps_entries [OF r] have "stop_server_event s'" by simp
  with r round_trip_with_flight show ?thesis
    by (simp add: s_one_def registry_origins_def)
qed

subsection \<open>The join thread\<close>

lemma internal_worker_join_exit:
  "fst (internal_worker_join tns s) \<Longrightarrow>
     stop_server_event (snd (internal_worker_join tns s))
     \<and> worker_shutdown_queue (snd (internal_worker_join tns s)) = []"
proof (induction tns arbitrary: s)
  case Nil
  then show ?case by (auto simp: reaper_continues_def split: if_splits)
next
  case (Cons tn tns)
  show ?case
  proof (cases "reaper_continues s")
    case True
    with Cons.prems Cons.IH [of "others_act tn (reaper_body (alive_after_join tn) s)"]
    show ?thesis by simp
  next
    case False
    then show ?thesis by (auto simp: reaper_continues_def)
  qed
qed

text \<open>
  C8. The loop of the join thread goes on exactly as long as the stop event is not set
  or the queue is not empty. A turn that takes a thread from the queue joins it with a
  timeout of 10 seconds and puts it back at the end of the queue if it is still alive.
  While the condition holds the loop does not end, whatever the other threads do, and
  when it has ended the stop event is set and the queue is empty.
\<close>

theorem reaper_joins_requeues_and_exits_last:
  "(reaper_continues s \<longleftrightarrow> \<not> (stop_server_event s \<and> worker_shutdown_queue s = []))
   \<and> (worker_shutdown_queue s = Some t # rest \<longrightarrow>
        calls (reaper_body alive s) = calls s @ [Join t 10]
        \<and> worker_shutdown_queue (reaper_body alive s) = (if alive then rest @ [Some t] else rest))
   \<and> (reaper_continues s \<longrightarrow>
        \<not> fst (internal_worker_join [] s)
        \<and> internal_worker_join (tn # tns) s
            = internal_worker_join tns (others_act tn (reaper_body (alive_after_join tn) s)))
   \<and> (fst (internal_worker_join tns s) \<longrightarrow>
        stop_server_event (snd (internal_worker_join tns s))
        \<and> worker_shutdown_queue (snd (internal_worker_join tns s)) = [])"
proof (intro conjI impI)
  show "reaper_continues s \<longleftrightarrow> \<not> (stop_server_event s \<and> worker_shutdown_queue s = [])"
    by (auto simp: reaper_continues_def)
next
  assume "worker_shutdown_queue s = Some t # rest"
  then show "calls (reaper_body alive s) = calls s @ [Join t 10]"
    and "worker_shutdown_queue (reaper_body alive s) = (if alive then rest @ [Some t] else rest)"
    by (simp_all add: reaper_body_def)
next
  assume "reaper_continues s"
  then show "\<not> fst (internal_worker_join [] s)"
    and "internal_worker_join (tn # tns) s
            = internal_worker_join tns (others_act tn (reaper_body (alive_after_join tn) s))"
    by simp_all
next
  assume "fst (internal_worker_join tns s)"
  then show "stop_server_event (snd (internal_worker_join tns s))"
    and "worker_shutdown_queue (snd (internal_worker_join tns s)) = []"
    by (simp_all add: internal_worker_join_exit)
qed

theorem reaper_joins_requeues_and_exits_last_witness:
  "reaper_continues s_queue
   \<and> worker_shutdown_queue s_queue = [Some 5]
   \<and> calls (reaper_body True s_queue) = [Join 5 10]
   \<and> worker_shutdown_queue (reaper_body True s_queue) = [Some 5]
   \<and> \<not> fst (internal_worker_join [] s_queue)
   \<and> fst (internal_worker_join turns2 s_queue)
   \<and> stop_server_event (snd (internal_worker_join turns2 s_queue))
   \<and> worker_shutdown_queue (snd (internal_worker_join turns2 s_queue)) = []"
proof -
  have a: "reaper_continues s_queue"
    by (simp add: reaper_continues_def s_queue_def ex_server_def)
  have b: "worker_shutdown_queue s_queue = Some 5 # []" by (simp add: s_queue_def)
  have c: "fst (internal_worker_join turns2 s_queue)"
    by (simp add: turns2_def s_queue_def ex_server_def reaper_continues_def reaper_body_def
        others_act_def)
  from reaper_joins_requeues_and_exits_last
         [of s_queue 5 "[]" True "\<lparr>alive_after_join = True, others_put = [], others_set_stop = True\<rparr>" turns2]
       a b c
  show ?thesis by (simp add: s_queue_def ex_server_def)
qed

end
